theory Spec2Isabelle
  imports Main
begin

section \<open>Strings, errors and the HTTP vocabulary\<close>

text \<open>
  A Go string is a sequence of bytes; \<open>string\<close> (a list of 8-bit \<open>char\<close>) is used for
  it throughout, and \<open>length\<close> is Go's \<open>len\<close>.

  A Go \<open>error\<close> is modelled by the way it was built: \<open>New msg\<close> is an error whose text
  is \<open>msg\<close> (\<open>errors.New\<close>, and \<open>fmt.Errorf\<close> with only \<open>%s\<close> verbs, whose arguments
  are already spliced into \<open>msg\<close>); \<open>Errorf prefix err\<close> is
  \<open>fmt.Errorf(prefix + "%w", err)\<close>, which wraps \<open>err\<close>.
\<close>

datatype error = New string | Errorf string error

fun Error_text :: "error \<Rightarrow> string" where
  "Error_text (New msg) = msg"
| "Error_text (Errorf prefix err) = prefix @ Error_text err"

text \<open>
  \<open>context.Context\<close>: either the nil interface value or some context, whose
  cancellation behaviour belongs to the environment.
\<close>

datatype Context = nil_Context | Ctx nat

text \<open>
  \<open>http.Header\<close> is \<open>map[string][]string\<close>. \<open>Header.Set\<close> and \<open>Header.Get\<close> go through
  \<open>textproto.CanonicalMIMEHeaderKey\<close>: a key made only of token bytes is rewritten so
  that the first letter and every letter after a hyphen is upper case and every other
  letter is lower case; a key with any other byte is used unchanged.
\<close>

type_synonym Header = "string \<rightharpoonup> string list"

definition byte :: "char \<Rightarrow> nat" where
  "byte c = of_char c"

definition is_digit :: "char \<Rightarrow> bool" where
  "is_digit c = (byte CHR ''0'' \<le> byte c \<and> byte c \<le> byte CHR ''9'')"

definition is_lower :: "char \<Rightarrow> bool" where
  "is_lower c = (byte CHR ''a'' \<le> byte c \<and> byte c \<le> byte CHR ''z'')"

definition is_upper :: "char \<Rightarrow> bool" where
  "is_upper c = (byte CHR ''A'' \<le> byte c \<and> byte c \<le> byte CHR ''Z'')"

definition validHeaderFieldByte :: "char \<Rightarrow> bool" where
  "validHeaderFieldByte c =
     (is_digit c \<or> is_lower c \<or> is_upper c \<or>
      c \<in> set [CHR ''!'', CHR ''#'', CHR ''$'', CHR ''%'', CHR ''&'', CHR 0x27, CHR ''*'',
                 CHR ''+'', CHR ''-'', CHR ''.'', CHR ''^'', CHR ''_'', CHR 0x60, CHR ''|'',
                 CHR ''~''])"

definition toLower_byte :: "char \<Rightarrow> char" where
  "toLower_byte c = (if is_upper c then char_of (byte c + 32) else c)"

definition toUpper_byte :: "char \<Rightarrow> char" where
  "toUpper_byte c = (if is_lower c then char_of (byte c - 32) else c)"

fun canonical_loop :: "bool \<Rightarrow> string \<Rightarrow> string" where
  "canonical_loop upper [] = []"
| "canonical_loop upper (c # cs) =
     (let c' = (if upper \<and> is_lower c then toUpper_byte c
                else if \<not> upper \<and> is_upper c then toLower_byte c
                else c)
      in c' # canonical_loop (c' = CHR ''-'') cs)"

definition CanonicalMIMEHeaderKey :: "string \<Rightarrow> string" where
  "CanonicalMIMEHeaderKey s =
     (if list_all validHeaderFieldByte s then canonical_loop True s else s)"

definition Header_Set :: "Header \<Rightarrow> string \<Rightarrow> string \<Rightarrow> Header" where
  "Header_Set h key v = h(CanonicalMIMEHeaderKey key \<mapsto> [v])"

definition Header_Get :: "Header \<Rightarrow> string \<Rightarrow> string" where
  "Header_Get h key =
     (case h (CanonicalMIMEHeaderKey key) of
        None \<Rightarrow> []
      | Some [] \<Rightarrow> []
      | Some (v # vs) \<Rightarrow> v)"

text \<open>
  \<open>http.Request\<close>, with the fields this code sets: the context, the method, the URL,
  the header and the body (\<open>None\<close> is the nil reader of a GET).
\<close>

record Request =
  req_ctx :: Context
  req_Method :: string
  req_URL :: string
  req_Header :: Header
  req_Body :: "string option"

text \<open>
  A response body is a stream: the bytes that arrive, and the error that ends the
  stream if it does not end in EOF. \<open>io.ReadAll\<close> returns both.
\<close>

datatype ReadCloser = Stream string "error option"

fun io_ReadAll :: "ReadCloser \<Rightarrow> string \<times> error option" where
  "io_ReadAll (Stream bytes err) = (bytes, err)"

record Response =
  resp_Status :: string
  resp_StatusCode :: int
  resp_Body :: ReadCloser

definition StatusOK :: int where
  "StatusOK = 200"

definition StatusNoContent :: int where
  "StatusNoContent = 204"

text \<open>
  The environment of one run. Everything the code asks of the Go runtime, the network
  and the operating system is a field: URL parsing (the only way
  \<open>http.NewRequestWithContext\<close> fails for a valid method and a non-nil context), the
  round trip of \<open>client.Do\<close>, and the file-system calls, which take the state of the
  disk \<open>'fs\<close> and return the new one together with their error. Two fields are data of
  the platform and of the Go distribution rather than state: which bytes separate path
  elements (\<open>/\<close> on Unix, also the backslash on Windows), and the lower-case mapping
  of the Unicode tables for runes above ASCII (\<open>unicode.To(unicode.LowerCase, r)\<close>).
\<close>

record FileInfo =
  fi_Size :: int

record 'fs sys =
  url_Parse :: "string \<Rightarrow> error option"
  client_Do :: "Request \<Rightarrow> error + Response"
  filepath_Dir :: "string \<Rightarrow> string"
  os_MkdirAll :: "string \<Rightarrow> 'fs \<Rightarrow> error option \<times> 'fs"
  os_Create :: "string \<Rightarrow> 'fs \<Rightarrow> error option \<times> 'fs"
  io_Copy :: "string \<Rightarrow> ReadCloser \<Rightarrow> 'fs \<Rightarrow> error option \<times> 'fs"
  os_Stat :: "string \<Rightarrow> 'fs \<Rightarrow> error + FileInfo"
  os_ReadFile :: "string \<Rightarrow> 'fs \<Rightarrow> error + string"
  os_IsPathSeparator :: "char \<Rightarrow> bool"
  unicode_To_LowerCase :: "nat \<Rightarrow> nat"

text \<open>
  The observable world: the requests handed to \<open>client.Do\<close> so far (oldest first) and
  the disk.
\<close>

record 'fs world =
  requests :: "Request list"
  disk :: "'fs"

definition NewRequestWithContext ::
  "'fs sys \<Rightarrow> Context \<Rightarrow> string \<Rightarrow> string \<Rightarrow> string option \<Rightarrow> error + Request" where
  "NewRequestWithContext env ctx method url body =
     (if ctx = nil_Context then Inl (New ''net/http: nil Context'')
      else case url_Parse env url of
             Some err \<Rightarrow> Inl err
           | None \<Rightarrow> Inr \<lparr>req_ctx = ctx, req_Method = method, req_URL = url,
                            req_Header = Map.empty, req_Body = body\<rparr>)"

section \<open>Transfer: upload\<close>

text \<open>
  \<open>UploadFileInfo\<close>. \<open>Headers\<close> is a Go map; it is kept as the list of its entries in
  the order in which this run's \<open>range\<close> statement visits them (Go leaves that order
  unspecified), so its keys are pairwise different.
\<close>

record UploadFileInfo =
  UploadURL :: string
  AssetURL :: string
  Headers :: "(string \<times> string) list"
  ContentType :: string
  Size :: int

text \<open>The request as it stands when \<open>client.Do\<close> is called (lines 124 to 130).\<close>

definition upload_headers :: "UploadFileInfo \<Rightarrow> Header \<Rightarrow> Header" where
  "upload_headers info h0 =
     (let h1 = Header_Set h0 ''Content-Type'' (ContentType info);
          h2 = Header_Set h1 ''Cache-Control'' ''public, max-age=31536000''
      in fold (\<lambda>(key, v) h. Header_Set h key v) (Headers info) h2)"

definition UploadToPresignedURL ::
  "'fs sys \<Rightarrow> Context \<Rightarrow> UploadFileInfo \<Rightarrow> string \<Rightarrow> 'fs world \<Rightarrow> error option \<times> 'fs world" where
  "UploadToPresignedURL env ctx info fileContent w =
     (case NewRequestWithContext env ctx ''PUT'' (UploadURL info) (Some fileContent) of
        Inl err \<Rightarrow> (Some (Errorf ''failed to create upload request: '' err), w)
      | Inr req0 \<Rightarrow>
          let req = req0\<lparr>req_Header := upload_headers info (req_Header req0)\<rparr>;
              w1 = w\<lparr>requests := requests w @ [req]\<rparr>
          in (case client_Do env req of
                Inl err \<Rightarrow> (Some (Errorf ''failed to upload file: '' err), w1)
              | Inr resp \<Rightarrow>
                  if resp_StatusCode resp \<noteq> StatusOK \<and> resp_StatusCode resp \<noteq> StatusNoContent
                  then (let (body, _) = io_ReadAll (resp_Body resp)
                        in (Some (New (''upload failed with status '' @ resp_Status resp
                                        @ '': '' @ body)), w1))
                  else (None, w1)))"

section \<open>Transfer: download\<close>

definition DownloadImage ::
  "'fs sys \<Rightarrow> Context \<Rightarrow> string \<Rightarrow> string \<Rightarrow> string \<Rightarrow> 'fs world \<Rightarrow> error option \<times> 'fs world" where
  "DownloadImage env ctx url outputPath authHeader w =
     (case NewRequestWithContext env ctx ''GET'' url None of
        Inl err \<Rightarrow> (Some (Errorf ''failed to create request: '' err), w)
      | Inr req0 \<Rightarrow>
          let req = (if authHeader \<noteq> []
                     then req0\<lparr>req_Header := Header_Set (req_Header req0) ''Authorization'' authHeader\<rparr>
                     else req0);
              w1 = w\<lparr>requests := requests w @ [req]\<rparr>
          in (case client_Do env req of
                Inl err \<Rightarrow> (Some (Errorf ''failed to download image: '' err), w1)
              | Inr resp \<Rightarrow>
                  if resp_StatusCode resp \<noteq> StatusOK
                  then (Some (New (''download failed with status: '' @ resp_Status resp)), w1)
                  else
                    (let dir = filepath_Dir env outputPath
                     in case os_MkdirAll env dir (disk w1) of
                          (Some err, d2) \<Rightarrow>
                            (Some (Errorf ''failed to create output directory: '' err),
                             w1\<lparr>disk := d2\<rparr>)
                        | (None, d2) \<Rightarrow>
                            (case os_Create env outputPath d2 of
                               (Some err, d3) \<Rightarrow>
                                 (Some (Errorf ''failed to create output file: '' err),
                                  w1\<lparr>disk := d3\<rparr>)
                             | (None, d3) \<Rightarrow>
                                 (case io_Copy env outputPath (resp_Body resp) d3 of
                                    (Some err, d4) \<Rightarrow>
                                      (Some (Errorf ''failed to write image data: '' err),
                                       w1\<lparr>disk := d4\<rparr>)
                                  | (None, d4) \<Rightarrow> (None, w1\<lparr>disk := d4\<rparr>))))))"

section \<open>A concrete environment for running the model\<close>

text \<open>
  A small environment on which the definitions can be evaluated: every URL parses, the
  server answers every request with the same response, and the disk is a list of
  (path, content) pairs, the newest entry first. Paths are Unix paths, and of the
  Unicode lower-case table only the two runes whose lower case is an ASCII letter are
  kept (U+0130 and the Kelvin sign U+212A).
\<close>

definition demo_env :: "Response \<Rightarrow> (string \<times> string) list sys" where
  "demo_env resp =
     \<lparr>url_Parse = (\<lambda>url. None),
      client_Do = (\<lambda>req. Inr resp),
      filepath_Dir = (\<lambda>path. ''/tmp/out''),
      os_MkdirAll = (\<lambda>dir d. (None, d)),
      os_Create = (\<lambda>path d. (None, (path, []) # d)),
      io_Copy = (\<lambda>path body d. (snd (io_ReadAll body), (path, fst (io_ReadAll body)) # d)),
      os_Stat = (\<lambda>path d. case map_of d path of
                                None \<Rightarrow> Inl (New ''no such file or directory'')
                              | Some bytes \<Rightarrow> Inr \<lparr>fi_Size = int (length bytes)\<rparr>),
      os_ReadFile = (\<lambda>path d. case map_of d path of
                                    None \<Rightarrow> Inl (New ''no such file or directory'')
                                  | Some bytes \<Rightarrow> Inr bytes),
      os_IsPathSeparator = (\<lambda>c. c = CHR ''/''),
      unicode_To_LowerCase = (\<lambda>r. if r = 0x130 then 0x69 else if r = 0x212A then 0x6B
                                   else r)\<rparr>"

definition demo_response :: "int \<Rightarrow> string \<Rightarrow> string \<Rightarrow> Response" where
  "demo_response code status body =
     \<lparr>resp_Status = status, resp_StatusCode = code, resp_Body = Stream body None\<rparr>"

definition demo_info :: "(string \<times> string) list \<Rightarrow> string \<Rightarrow> int \<Rightarrow> UploadFileInfo" where
  "demo_info hs asset n =
     \<lparr>UploadURL = ''https://bucket.example/put?sig=1'', AssetURL = asset, Headers = hs,
      ContentType = ''image/png'', Size = n\<rparr>"

section \<open>Facts about the header map\<close>

text \<open>
  What a run of \<open>Header.Set\<close> calls leaves under a canonical key: the value of the
  last call for that key, or the old entry when no call had that key.
\<close>

lemma fold_Header_Set_other:
  "k \<notin> (\<lambda>(key, v). CanonicalMIMEHeaderKey key) ` set hs \<Longrightarrow>
   fold (\<lambda>(key, v) h. Header_Set h key v) hs h k = h k"
  by (induction hs arbitrary: h) (auto simp: Header_Set_def)

lemma fold_Header_Set_last:
  "(key, v) \<in> set hs \<Longrightarrow>
   \<forall>(key', v') \<in> set hs. CanonicalMIMEHeaderKey key' = CanonicalMIMEHeaderKey key \<longrightarrow> v' = v \<Longrightarrow>
   fold (\<lambda>(key, v) h. Header_Set h key v) hs h (CanonicalMIMEHeaderKey key) = Some [v]"
proof (induction hs arbitrary: h key)
  case Nil
  then show ?case by simp
next
  case (Cons x xs)
  obtain k0 v0 where x: "x = (k0, v0)" by (cases x)
  let ?F = "\<lambda>(key, v) h. Header_Set h key v"
  let ?c = "CanonicalMIMEHeaderKey key"
  show ?case
  proof (cases "?c \<in> (\<lambda>(key, v). CanonicalMIMEHeaderKey key) ` set xs")
    case True
    then obtain k1 v1 where k1: "(k1, v1) \<in> set xs" "CanonicalMIMEHeaderKey k1 = ?c"
      by auto
    with Cons.prems(2) have v1: "v1 = v" by auto
    have "\<forall>(key', v') \<in> set xs. CanonicalMIMEHeaderKey key' = CanonicalMIMEHeaderKey k1 \<longrightarrow> v' = v"
      using Cons.prems(2) k1(2) by auto
    from Cons.IH [OF k1(1) [unfolded v1] this, of "?F x h"] k1(2)
    show ?thesis by simp
  next
    case False
    then have "(key, v) \<notin> set xs" by force
    with Cons.prems(1) x have kv: "k0 = key" "v0 = v" by auto
    have "fold ?F (x # xs) h ?c = Header_Set h key v ?c"
      using fold_Header_Set_other [OF False, of "?F x h"] by (simp add: x kv)
    also have "\<dots> = Some [v]" by (simp add: Header_Set_def)
    finally show ?thesis .
  qed
qed

lemma canon_CT: "CanonicalMIMEHeaderKey ''Content-Type'' = ''Content-Type''"
  by code_simp
lemma canon_CC: "CanonicalMIMEHeaderKey ''Cache-Control'' = ''Cache-Control''"
  by code_simp

lemma Header_Get_upload_headers_entry:
  assumes "(key, v) \<in> set (Headers info)"
    and "\<forall>(key', v') \<in> set (Headers info).
           CanonicalMIMEHeaderKey key' = CanonicalMIMEHeaderKey key \<longrightarrow> v' = v"
  shows "Header_Get (upload_headers info h0) key = v"
  using fold_Header_Set_last [OF assms]
  by (simp add: Header_Get_def upload_headers_def Let_def)

lemma Header_Get_upload_headers_ContentType:
  assumes "''Content-Type'' \<notin> (\<lambda>(key, v). CanonicalMIMEHeaderKey key) ` set (Headers info)"
  shows "Header_Get (upload_headers info h0) ''Content-Type'' = ContentType info"
  using fold_Header_Set_other [OF assms]
  by (simp add: Header_Get_def upload_headers_def Let_def canon_CT canon_CC Header_Set_def)

lemma Header_Get_upload_headers_CacheControl:
  assumes "''Cache-Control'' \<notin> (\<lambda>(key, v). CanonicalMIMEHeaderKey key) ` set (Headers info)"
  shows "Header_Get (upload_headers info h0) ''Cache-Control'' = ''public, max-age=31536000''"
  using fold_Header_Set_other [OF assms]
  by (simp add: Header_Get_def upload_headers_def Let_def canon_CT canon_CC Header_Set_def)

section \<open>UTF-8 as package unicode/utf8 decodes it\<close>

text \<open>
  Go's string functions and its regular expressions read a string rune by rune with
  \<open>utf8.DecodeRuneInString\<close>: a valid encoding yields its code point and its width in
  bytes, anything else yields \<open>RuneError\<close> and width 1. The function is modelled with
  its tables \<open>first\<close> and \<open>acceptRanges\<close>; masking with \<open>0x1F\<close>, \<open>0x0F\<close>, \<open>0x07\<close>,
  \<open>0x3F\<close> is \<open>mod\<close> and shifting left is multiplication, as the masked parts do not
  overlap.
\<close>

definition RuneError :: nat where
  "RuneError = 0xFFFD"

definition RuneSelf :: nat where
  "RuneSelf = 0x80"

definition first :: "nat \<Rightarrow> nat" where
  "first b =
     (if b < 0x80 then 0xF0
      else if b < 0xC2 then 0xF1
      else if b < 0xE0 then 0x02
      else if b = 0xE0 then 0x13
      else if b < 0xED then 0x03
      else if b = 0xED then 0x23
      else if b < 0xF0 then 0x03
      else if b = 0xF0 then 0x34
      else if b < 0xF4 then 0x04
      else if b = 0xF4 then 0x44
      else 0xF1)"

definition acceptRanges :: "nat \<Rightarrow> nat \<times> nat" where
  "acceptRanges i =
     (if i = 0 then (0x80, 0xBF)
      else if i = 1 then (0xA0, 0xBF)
      else if i = 2 then (0x80, 0x9F)
      else if i = 3 then (0x90, 0xBF)
      else if i = 4 then (0x80, 0x8F)
      else (0, 0))"

definition DecodeRuneInString :: "string \<Rightarrow> nat \<times> nat" where
  "DecodeRuneInString s =
     (let n = length s in
      if n < 1 then (RuneError, 0)
      else
        let s0 = byte (s ! 0); x = first s0 in
        if x \<ge> 0xF0 then (if x = 0xF0 then s0 else RuneError, 1)
        else
          let sz = x mod 8; (lo, hi) = acceptRanges (x div 16) in
          if n < sz then (RuneError, 1)
          else
            let s1 = byte (s ! 1) in
            if s1 < lo \<or> hi < s1 then (RuneError, 1)
            else if sz \<le> 2 then ((s0 mod 32) * 64 + s1 mod 64, 2)
            else
              let s2 = byte (s ! 2) in
              if s2 < 0x80 \<or> 0xBF < s2 then (RuneError, 1)
              else if sz \<le> 3 then ((s0 mod 16) * 4096 + (s1 mod 64) * 64 + s2 mod 64, 3)
              else
                let s3 = byte (s ! 3) in
                if s3 < 0x80 \<or> 0xBF < s3 then (RuneError, 1)
                else ((s0 mod 8) * 262144 + (s1 mod 64) * 4096 + (s2 mod 64) * 64
                      + s3 mod 64, 4))"

lemma first_size: "first b < 0xF0 \<Longrightarrow> first b mod 8 \<in> {2, 3, 4}"
  by (simp add: first_def split: if_splits)

lemma DecodeRuneInString_width:
  assumes "s \<noteq> []"
  shows "1 \<le> snd (DecodeRuneInString s) \<and> snd (DecodeRuneInString s) \<le> length s"
proof -
  have n: "1 \<le> length s" using assms by (cases s) auto
  show ?thesis
  proof (cases "first (byte (s ! 0)) \<ge> 0xF0")
    case True
    then show ?thesis using n assms by (simp add: DecodeRuneInString_def Let_def)
  next
    case False
    then have "first (byte (s ! 0)) < 0xF0" by simp
    from first_size [OF this] show ?thesis
      using n assms False
      by (auto simp: DecodeRuneInString_def Let_def split: prod.splits)
  qed
qed

lemma DecodeRuneInString_shorter:
  assumes "s \<noteq> []" and "(r, w) = DecodeRuneInString s"
  shows "length s - w < length s"
proof -
  have "1 \<le> w" using DecodeRuneInString_width [OF assms(1)] assms(2) by (metis snd_conv)
  with assms(1) show ?thesis by (cases s) auto
qed

text \<open>
  The runes of a string, each with the bytes it was decoded from: the sequence a
  \<open>for i, r := range s\<close> loop and the regular-expression engine step through.
\<close>

function runes :: "string \<Rightarrow> (nat \<times> string) list" where
  "runes s =
     (if s = [] then []
      else case DecodeRuneInString s of
             (r, w) \<Rightarrow> (r, take w s) # runes (drop w s))"
  by pat_completeness auto
termination
  by (relation "measure length") (auto simp: DecodeRuneInString_shorter)

declare runes.simps [simp del]

text \<open>Facts about the decoder: the cases of the table \<open>first\<close>, ASCII bytes, and
  the bytes of a longer encoding.\<close>

lemma first_cases:
  obtains (ascii) "b < 0x80" "first b = 0xF0"
  | (invalid) "0x80 \<le> b" "first b = 0xF1"
  | (two) "0xC2 \<le> b" "b < 0xE0" "first b = 0x02"
  | (e0) "b = 0xE0" "first b = 0x13"
  | (three) "0xE1 \<le> b" "b < 0xF0" "b \<noteq> 0xED" "first b = 0x03"
  | (ed) "b = 0xED" "first b = 0x23"
  | (f0) "b = 0xF0" "first b = 0x34"
  | (four) "0xF1 \<le> b" "b < 0xF4" "first b = 0x04"
  | (f4) "b = 0xF4" "first b = 0x44"
proof -
  consider "b < 0x80" | "0x80 \<le> b \<and> b < 0xC2" | "0xC2 \<le> b \<and> b < 0xE0" | "b = 0xE0"
    | "0xE1 \<le> b \<and> b < 0xED" | "b = 0xED" | "0xEE \<le> b \<and> b < 0xF0" | "b = 0xF0"
    | "0xF1 \<le> b \<and> b < 0xF4" | "b = 0xF4" | "0xF5 \<le> b"
    by arith
  then show ?thesis
  proof cases
    case 1 then show ?thesis using ascii by (simp add: first_def)
  next
    case 2 then show ?thesis using invalid by (simp add: first_def)
  next
    case 3 then show ?thesis using two by (simp add: first_def)
  next
    case 4 then show ?thesis using e0 by (simp add: first_def)
  next
    case 5 then show ?thesis using three by (simp add: first_def)
  next
    case 6 then show ?thesis using ed by (simp add: first_def)
  next
    case 7 then show ?thesis using three by (simp add: first_def)
  next
    case 8 then show ?thesis using f0 by (simp add: first_def)
  next
    case 9 then show ?thesis using four by (simp add: first_def)
  next
    case 10 then show ?thesis using f4 by (simp add: first_def)
  next
    case 11 then show ?thesis using invalid by (simp add: first_def)
  qed
qed

lemma DecodeRuneInString_ascii:
  assumes "s \<noteq> []" and "byte (s ! 0) < 0x80"
  shows "DecodeRuneInString s = (byte (s ! 0), 1)"
  using assms by (cases s) (simp_all add: DecodeRuneInString_def first_def Let_def)

lemma rune2: "0xC2 \<le> b0 \<Longrightarrow> b0 < 0xE0 \<Longrightarrow> (128::nat) \<le> b0 mod 32 * 64 + x"
proof -
  assume "0xC2 \<le> b0" and "b0 < 0xE0"
  then have "2 \<le> b0 mod 32" by presburger
  then show ?thesis by simp
qed

lemma rune3a: "0xE1 \<le> b0 \<Longrightarrow> b0 < 0xF0 \<Longrightarrow> (128::nat) \<le> b0 mod 16 * 4096 + x + y"
proof -
  assume "0xE1 \<le> b0" and "b0 < 0xF0"
  then have "1 \<le> b0 mod 16" by presburger
  then show ?thesis by simp
qed

lemma rune3b: "\<not> b1 < 160 \<Longrightarrow> \<not> 191 < b1 \<Longrightarrow> (128::nat) \<le> b1 mod 64 * 64 + y"
proof -
  assume "\<not> b1 < 160" and "\<not> 191 < b1"
  then have "32 \<le> b1 mod 64" by presburger
  then show ?thesis by simp
qed

lemma rune4a: "0xF1 \<le> b0 \<Longrightarrow> b0 \<le> 0xF4 \<Longrightarrow> (128::nat) \<le> b0 mod 8 * 262144 + x + y + z"
proof -
  assume "0xF1 \<le> b0" and "b0 \<le> 0xF4"
  then have "1 \<le> b0 mod 8" by presburger
  then show ?thesis by simp
qed

lemma rune4b: "\<not> b1 < 144 \<Longrightarrow> \<not> 191 < b1 \<Longrightarrow> (128::nat) \<le> b1 mod 64 * 4096 + y + z"
proof -
  assume "\<not> b1 < 144" and "\<not> 191 < b1"
  then have "16 \<le> b1 mod 64" by presburger
  then show ?thesis by simp
qed

text \<open>A rune that starts with a byte of 0x80 or more is not ASCII, and neither is any
  of the bytes it was decoded from.\<close>

lemma DecodeRuneInString_multi:
  assumes "s \<noteq> []" and "0x80 \<le> byte (s ! 0)" and "DecodeRuneInString s = (r, w)"
  shows "0x80 \<le> r \<and> (\<forall>i<w. 0x80 \<le> byte (s ! i))"
proof -
  have i4: "\<And>i::nat. i < 4 \<Longrightarrow> i = 0 \<or> i = 1 \<or> i = 2 \<or> i = 3" by arith
  have i3: "\<And>i::nat. i < 3 \<Longrightarrow> i = 0 \<or> i = 1 \<or> i = 2" by arith
  have i2: "\<And>i::nat. i < 2 \<Longrightarrow> i = 0 \<or> i = 1" by arith
  show ?thesis
  proof (cases "byte (s ! 0)" rule: first_cases)
    case ascii
    with assms show ?thesis by simp
  next
    case invalid
    with assms show ?thesis
      by (auto simp: DecodeRuneInString_def Let_def RuneError_def)
  next
    case two
    with assms show ?thesis
      by (auto simp: DecodeRuneInString_def Let_def RuneError_def acceptRanges_def rune2
          split: if_splits dest!: i2)
  next
    case e0
    with assms show ?thesis
      by (auto simp: DecodeRuneInString_def Let_def RuneError_def acceptRanges_def rune3b
          split: if_splits dest!: i3)
  next
    case three
    with assms show ?thesis
      by (auto simp: DecodeRuneInString_def Let_def RuneError_def acceptRanges_def rune3a
          split: if_splits dest!: i3)
  next
    case ed
    with assms show ?thesis
      by (auto simp: DecodeRuneInString_def Let_def RuneError_def acceptRanges_def rune3a
          split: if_splits dest!: i3)
  next
    case f0
    with assms show ?thesis
      by (auto simp: DecodeRuneInString_def Let_def RuneError_def acceptRanges_def rune4b
          split: if_splits dest!: i4)
  next
    case four
    with assms show ?thesis
      by (auto simp: DecodeRuneInString_def Let_def RuneError_def acceptRanges_def rune4a
          split: if_splits dest!: i4)
  next
    case f4
    with assms show ?thesis
      by (auto simp: DecodeRuneInString_def Let_def RuneError_def acceptRanges_def rune4a
          split: if_splits dest!: i4)
  qed
qed

section \<open>Functions of package strings and unicode that the code calls\<close>

subsection \<open>strings.Contains\<close>

text \<open>\<open>strings.Contains(s, substr)\<close> is \<open>strings.Index(s, substr) >= 0\<close>: some position of
  \<open>s\<close> at which \<open>substr\<close> starts.\<close>

fun Contains :: "string \<Rightarrow> string \<Rightarrow> bool" where
  "Contains [] substr = (substr = [])"
| "Contains (c # cs) substr = (take (length substr) (c # cs) = substr \<or> Contains cs substr)"

subsection \<open>unicode.IsSpace and strings.TrimSpace\<close>

definition asciiSpace :: "char \<Rightarrow> bool" where
  "asciiSpace c = (byte c \<in> {0x09, 0x0A, 0x0B, 0x0C, 0x0D, 0x20})"

definition IsSpace :: "nat \<Rightarrow> bool" where
  "IsSpace r =
     (if r \<le> 0xFF then r \<in> {0x09, 0x0A, 0x0B, 0x0C, 0x0D, 0x20, 0x85, 0xA0}
      else r = 0x1680 \<or> (0x2000 \<le> r \<and> r \<le> 0x200A) \<or> r = 0x2028 \<or> r = 0x2029
           \<or> r = 0x202F \<or> r = 0x205F \<or> r = 0x3000)"

definition RuneStart :: "char \<Rightarrow> bool" where
  "RuneStart b = (byte b < 0x80 \<or> 0xC0 \<le> byte b)"

text \<open>The loop of \<open>DecodeLastRuneInString\<close> that walks back to a byte that can start a
  rune, at most to \<open>lim\<close>; it returns the index it stops at, which is \<open>lim - 1\<close> when no
  such byte was found.\<close>

function back_to_start :: "string \<Rightarrow> int \<Rightarrow> int \<Rightarrow> int" where
  "back_to_start s start lim =
     (if start \<ge> lim \<and> start \<ge> 0
      then (if RuneStart (s ! nat start) then start else back_to_start s (start - 1) lim)
      else start)"
  by pat_completeness auto
termination
  by (relation "measure (\<lambda>(s, start, lim). nat (start + 1))") auto

declare back_to_start.simps [simp del]

definition DecodeLastRuneInString :: "string \<Rightarrow> nat \<times> nat" where
  "DecodeLastRuneInString s =
     (let end = int (length s) in
      if end = 0 then (RuneError, 0)
      else
        let r = byte (s ! nat (end - 1)) in
        if r < RuneSelf then (r, 1)
        else
          let lim = max (end - 4) 0;
              start0 = back_to_start s (end - 2) lim;
              start = (if start0 < 0 then 0 else start0);
              (r, width) = DecodeRuneInString (drop (nat start) s)
          in if start + int width \<noteq> end then (RuneError, 1) else (r, width))"

lemma back_to_start_bounds:
  "start < int (length s) \<Longrightarrow> back_to_start s start lim \<le> start"
proof (induction s start lim rule: back_to_start.induct)
  case (1 s start lim)
  show ?case
  proof (cases "start \<ge> lim \<and> start \<ge> 0")
    case True
    with "1" show ?thesis
      by (subst back_to_start.simps) (auto split: if_splits)
  next
    case False
    then show ?thesis by (subst back_to_start.simps) auto
  qed
qed

lemma DecodeLastRuneInString_width:
  assumes "s \<noteq> []"
  shows "1 \<le> snd (DecodeLastRuneInString s) \<and> snd (DecodeLastRuneInString s) \<le> length s"
proof -
  have n: "0 < length s" using assms by simp
  let ?walked = "back_to_start s (int (length s) - 2) (max (int (length s) - 4) 0)"
  let ?start = "if ?walked < 0 then 0 else ?walked"
  have "?walked \<le> int (length s) - 2"
    by (rule back_to_start_bounds) simp
  then have lt: "nat ?start < length s" using n by auto
  then have ne: "drop (nat ?start) s \<noteq> []" by simp
  obtain r width where d: "DecodeRuneInString (drop (nat ?start) s) = (r, width)"
    by (cases "DecodeRuneInString (drop (nat ?start) s)")
  from DecodeRuneInString_width [OF ne] d have "1 \<le> width" "width \<le> length s" by auto
  with n d show ?thesis
    by (auto simp: DecodeLastRuneInString_def Let_def split: prod.splits)
qed

lemma DecodeLastRuneInString_shorter:
  assumes "0 < i" and "i \<le> length s" and "(r, width) = DecodeLastRuneInString (take i s)"
  shows "i - width < i"
proof -
  have "take i s \<noteq> []" using assms by auto
  from DecodeLastRuneInString_width [OF this] assms(3) have "1 \<le> width" by (metis snd_conv)
  with assms(1) show ?thesis by simp
qed

text \<open>\<open>indexFunc(s, f, false)\<close> and \<open>strings.TrimLeftFunc\<close>: drop the leading runes that
  satisfy \<open>f\<close>.\<close>

definition TrimLeftFunc :: "string \<Rightarrow> (nat \<Rightarrow> bool) \<Rightarrow> string" where
  "TrimLeftFunc s f = concat (map snd (dropWhile (\<lambda>(r, bs). f r) (runes s)))"

text \<open>\<open>lastIndexFunc(s, f, false)\<close>: the index at which the last rune that does not
  satisfy \<open>f\<close> starts, reading the string backwards rune by rune; -1 if there is none.\<close>

function lastIndexFunc :: "string \<Rightarrow> (nat \<Rightarrow> bool) \<Rightarrow> nat \<Rightarrow> int" where
  "lastIndexFunc s f i =
     (if i > 0 \<and> i \<le> length s
      then (case DecodeLastRuneInString (take i s) of
              (r, width) \<Rightarrow> if \<not> f r then int i - int width else lastIndexFunc s f (i - width))
      else -1)"
  by pat_completeness auto
termination
  by (relation "measure (\<lambda>(s, f, i). i)") (auto simp: DecodeLastRuneInString_shorter)

declare lastIndexFunc.simps [simp del]

definition TrimRightFunc :: "string \<Rightarrow> (nat \<Rightarrow> bool) \<Rightarrow> string" where
  "TrimRightFunc s f =
     (let i = lastIndexFunc s f (length s);
          j = (if i \<ge> 0 \<and> byte (s ! nat i) \<ge> RuneSelf
               then i + int (snd (DecodeRuneInString (drop (nat i) s)))
               else i + 1)
      in take (nat j) s)"

definition TrimFunc :: "string \<Rightarrow> (nat \<Rightarrow> bool) \<Rightarrow> string" where
  "TrimFunc s f = TrimRightFunc (TrimLeftFunc s f) f"

text \<open>\<open>strings.TrimSpace\<close>: the fast path strips ASCII white space from both ends and
  hands over to the rune-wise functions at the first byte that is not ASCII.\<close>

definition TrimSpace :: "string \<Rightarrow> string" where
  "TrimSpace s =
     (let left = dropWhile asciiSpace s in
      if left \<noteq> [] \<and> byte (hd left) \<ge> RuneSelf then TrimFunc left IsSpace
      else
        let both = rev (dropWhile asciiSpace (rev left)) in
        if both \<noteq> [] \<and> byte (last both) \<ge> RuneSelf then TrimRightFunc both IsSpace
        else both)"

subsection \<open>strings.ToLower\<close>

text \<open>\<open>utf8.AppendRune\<close>: the UTF-8 encoding of a rune; a surrogate or a value above
  \<open>MaxRune\<close> is encoded as \<open>RuneError\<close>.\<close>

definition AppendRune :: "nat \<Rightarrow> string" where
  "AppendRune r =
     (if r \<le> 0x7F then [char_of r]
      else if r \<le> 0x7FF then [char_of (0xC0 + r div 64), char_of (0x80 + r mod 64)]
      else
        let r' = (if r > 0x10FFFF \<or> (0xD800 \<le> r \<and> r \<le> 0xDFFF) then RuneError else r) in
        if r' \<le> 0xFFFF
        then [char_of (0xE0 + r' div 4096), char_of (0x80 + (r' div 64) mod 64),
              char_of (0x80 + r' mod 64)]
        else [char_of (0xF0 + r' div 262144), char_of (0x80 + (r' div 4096) mod 64),
              char_of (0x80 + (r' div 64) mod 64), char_of (0x80 + r' mod 64)])"

text \<open>\<open>strings.Map\<close> for a mapping that never drops a rune: the input is returned as it
  is when no rune changes and no byte is invalid; otherwise the text before the first
  such rune is copied and every rune from there on is mapped and encoded again.\<close>

definition Map_string :: "(nat \<Rightarrow> nat) \<Rightarrow> string \<Rightarrow> string" where
  "Map_string mapping s =
     (let same = (\<lambda>(c, bs). mapping c = c \<and> (c \<noteq> RuneError \<or> length bs \<noteq> 1));
          unchanged = takeWhile same (runes s);
          from_change = dropWhile same (runes s)
      in if from_change = [] then s
         else concat (map snd unchanged)
              @ concat (map (\<lambda>(c, bs). AppendRune (mapping c)) from_change))"

definition unicode_ToLower :: "'fs sys \<Rightarrow> nat \<Rightarrow> nat" where
  "unicode_ToLower env r =
     (if r \<le> 0x7F
      then (if byte CHR ''A'' \<le> r \<and> r \<le> byte CHR ''Z'' then r + 32 else r)
      else unicode_To_LowerCase env r)"

definition ToLower :: "'fs sys \<Rightarrow> string \<Rightarrow> string" where
  "ToLower env s =
     (let ascii_prefix = takeWhile (\<lambda>c. byte c < RuneSelf) s;
          isASCII = (ascii_prefix = s);
          hasUpper = list_ex is_upper ascii_prefix
      in if isASCII
         then (if \<not> hasUpper then s else map toLower_byte s)
         else Map_string (unicode_ToLower env) s)"

section \<open>Regular expressions as package regexp runs them\<close>

text \<open>
  The three patterns of the source use a small part of the RE2 syntax: a sequence of
  pieces, each a single character, a negated character class, or a greedy \<open>*\<close> or \<open>+\<close>
  of one, some of them wrapped in a capture group. A negated class matches every rune
  outside its ranges, newline and \<open>RuneError\<close> included.
\<close>

datatype atom =
    Char char
  | NotIn "(char \<times> char) list"

fun atom_matches :: "atom \<Rightarrow> nat \<Rightarrow> bool" where
  "atom_matches (Char c) r = (r = byte c)"
| "atom_matches (NotIn ranges) r = (\<not> list_ex (\<lambda>(lo, hi). byte lo \<le> r \<and> r \<le> byte hi) ranges)"

datatype piece = Once atom | Star atom | Plus atom

text \<open>A pattern: its pieces in order, each with the flag "is a capture group".\<close>

type_synonym regexp = "(piece \<times> bool) list"

text \<open>
  Matching at a fixed start, over the runes that are left. Package regexp returns the
  match a backtracking search finds first (leftmost-first): a greedy repetition tries
  one more rune before it tries to stop. The result is the text each piece matched and
  the runes after the match.
\<close>

fun exec :: "regexp \<Rightarrow> (nat \<times> string) list \<Rightarrow> (string list \<times> (nat \<times> string) list) option" where
  "exec [] ts = Some ([], ts)"
| "exec ((Once a, g) # ps) [] = None"
| "exec ((Once a, g) # ps) ((r, bs) # ts) =
     (if atom_matches a r
      then (case exec ps ts of
              None \<Rightarrow> None
            | Some (ms, rest) \<Rightarrow> Some (bs # ms, rest))
      else None)"
| "exec ((Star a, g) # ps) [] =
     (case exec ps [] of
        None \<Rightarrow> None
      | Some (ms, rest) \<Rightarrow> Some ([] # ms, rest))"
| "exec ((Star a, g) # ps) ((r, bs) # ts) =
     (case (if atom_matches a r then exec ((Star a, g) # ps) ts else None) of
        Some (m # ms, rest) \<Rightarrow> Some ((bs @ m) # ms, rest)
      | _ \<Rightarrow> (case exec ps ((r, bs) # ts) of
                None \<Rightarrow> None
              | Some (ms, rest) \<Rightarrow> Some ([] # ms, rest)))"
| "exec ((Plus a, g) # ps) [] = None"
| "exec ((Plus a, g) # ps) ((r, bs) # ts) =
     (if atom_matches a r
      then (case exec ((Star a, g) # ps) ts of
              Some (m # ms, rest) \<Rightarrow> Some ((bs @ m) # ms, rest)
            | _ \<Rightarrow> None)
      else None)"

text \<open>
  The unanchored search: the first start, from the current position on, at which the
  pattern matches. It returns the bytes stepped over, the match and the runes after it.
\<close>

fun search :: "regexp \<Rightarrow> (nat \<times> string) list
    \<Rightarrow> (string \<times> string list \<times> (nat \<times> string) list) option" where
  "search re [] =
     (case exec re [] of
        None \<Rightarrow> None
      | Some (ms, rest) \<Rightarrow> Some ([], ms, rest))"
| "search re (t # ts) =
     (case exec re (t # ts) of
        Some (ms, rest) \<Rightarrow> Some ([], ms, rest)
      | None \<Rightarrow> (case search re ts of
                  None \<Rightarrow> None
                | Some (skipped, ms, rest) \<Rightarrow> Some (snd t @ skipped, ms, rest)))"

text \<open>
  The loop of \<open>Regexp.allMatches\<close>. A match that consumed something moves the position
  to its end. An empty match at the position itself is dropped when the previous match
  ended there (\<open>after\<close>), and the position then moves on by one rune, or the loop ends
  at the end of the input.
\<close>

function allMatches :: "regexp \<Rightarrow> (nat \<times> string) list \<Rightarrow> bool \<Rightarrow> string list list" where
  "allMatches re ts after =
     (case search re ts of
        None \<Rightarrow> []
      | Some (skipped, ms, rest) \<Rightarrow>
          if length rest < length ts then ms # allMatches re rest True
          else (let tail = (case ts of [] \<Rightarrow> [] | t # ts' \<Rightarrow> allMatches re ts' False)
                in if after then tail else ms # tail))"
  by pat_completeness auto
termination
  by (relation "measure (\<lambda>(re, ts, after). length ts)") auto

declare allMatches.simps [simp del]

text \<open>
  What \<open>FindAllStringSubmatch(s, -1)\<close> returns for one match: the whole match, then
  the text of each capture group.
\<close>

definition submatches :: "regexp \<Rightarrow> string list \<Rightarrow> string list" where
  "submatches re ms = concat ms # map fst (filter (\<lambda>(m, p, g). g) (zip ms re))"

definition FindAllStringSubmatch :: "regexp \<Rightarrow> string \<Rightarrow> string list list" where
  "FindAllStringSubmatch re s = map (submatches re) (allMatches re (runes s) False)"

text \<open>
  The loop of \<open>Regexp.replaceAll\<close> with a replacement text free of \<open>$\<close>. \<open>pending\<close> is
  the text between the end of the last match and the search position (one rune, after
  an empty match), \<open>start\<close> says that the search position is 0. The replacement is
  written unless the match is empty and ends where the last match ended.
\<close>

function replaceAll :: "regexp \<Rightarrow> string \<Rightarrow> (nat \<times> string) list \<Rightarrow> string \<Rightarrow> bool \<Rightarrow> string" where
  "replaceAll re repl ts pending start =
     (case search re ts of
        None \<Rightarrow> pending @ concat (map snd ts)
      | Some (skipped, ms, rest) \<Rightarrow>
          if length rest < length ts
          then pending @ skipped @ repl @ replaceAll re repl rest [] False
          else (let out = (if pending \<noteq> [] \<or> start then repl else [])
                in case ts of
                     [] \<Rightarrow> pending @ out
                   | t # ts' \<Rightarrow> pending @ out @ replaceAll re repl ts' (snd t) False))"
  by pat_completeness auto
termination
  by (relation "measure (\<lambda>(re, repl, ts, pending, start). length ts)") auto

declare replaceAll.simps [simp del]

definition ReplaceAllString :: "regexp \<Rightarrow> string \<Rightarrow> string \<Rightarrow> string" where
  "ReplaceAllString re src repl = replaceAll re repl (runes src) [] True"

section \<open>Facts about the runes of a string\<close>


lemma byte_char_of: "r < 256 \<Longrightarrow> byte (char_of r) = r"
  by (simp add: byte_def)

lemma char_of_byte: "char_of (byte c) = c"
  by (simp add: byte_def)

lemma byte_inj: "byte a = byte b \<Longrightarrow> a = b"
  by (simp add: byte_def)

lemma runes_Nil: "runes [] = []"
  by (simp add: runes.simps)

lemma runes_ascii_Cons:
  assumes "byte c < 0x80"
  shows "runes (c # s) = (byte c, [c]) # runes s"
  using DecodeRuneInString_ascii [of "c # s"] assms
  by (subst runes.simps) simp

lemma runes_concat: "concat (map snd (runes s)) = s"
proof (induction s rule: runes.induct)
  case (1 s)
  show ?case
  proof (cases "s = []")
    case True
    then show ?thesis by (simp add: runes_Nil)
  next
    case False
    obtain r w where d: "DecodeRuneInString s = (r, w)" by (cases "DecodeRuneInString s")
    from "1" [OF False d [symmetric]] show ?thesis
      using False d by (subst runes.simps) simp
  qed
qed


text \<open>A rune below 0x80 was decoded from the one byte with that value; every other rune
  was decoded from bytes that are all 0x80 or more.\<close>

definition rune_ok :: "nat \<times> string \<Rightarrow> bool" where
  "rune_ok t = (if fst t < 0x80 then snd t = [char_of (fst t)]
                else snd t \<noteq> [] \<and> list_all (\<lambda>b. 0x80 \<le> byte b) (snd t))"

lemma rune_ok_decode:
  assumes "s \<noteq> []" and "DecodeRuneInString s = (r, w)"
  shows "rune_ok (r, take w s)"
proof (cases "byte (s ! 0) < 0x80")
  case True
  from DecodeRuneInString_ascii [OF assms(1) True] assms show ?thesis
    by (cases s) (auto simp: rune_ok_def char_of_byte)
next
  case False
  then have hi: "0x80 \<le> byte (s ! 0)" by simp
  from DecodeRuneInString_multi [OF assms(1) hi assms(2)]
  have r: "0x80 \<le> r" and bs: "\<forall>i<w. 0x80 \<le> byte (s ! i)" by auto
  from DecodeRuneInString_width [OF assms(1)] assms(2) have w: "1 \<le> w" "w \<le> length s" by auto
  have "take w s \<noteq> []" using w assms(1) by (cases s) auto
  moreover have "list_all (\<lambda>b. 0x80 \<le> byte b) (take w s)"
    using bs w by (auto simp: list_all_length)
  ultimately show ?thesis using r by (simp add: rune_ok_def)
qed

lemma runes_ok: "list_all rune_ok (runes s)"
proof (induction s rule: runes.induct)
  case (1 s)
  show ?case
  proof (cases "s = []")
    case True
    then show ?thesis by (simp add: runes_Nil)
  next
    case False
    obtain r w where d: "DecodeRuneInString s = (r, w)" by (cases "DecodeRuneInString s")
    from "1" [OF False d [symmetric]] rune_ok_decode [OF False d] show ?thesis
      using False d by (subst runes.simps) simp
  qed
qed

text \<open>An ASCII byte always starts a rune of its own: the runes of a text that is
  followed by an ASCII byte end where the text ends.\<close>

lemma runes_append_ascii:
  assumes "byte c < 0x80"
  shows "\<exists>ta. runes (a @ c # m) = ta @ (byte c, [c]) # runes m
              \<and> concat (map snd ta) = a \<and> list_all rune_ok ta"
proof (induction a rule: length_induct)
  case (1 a)
  show ?case
  proof (cases a)
    case Nil
    then show ?thesis using runes_ascii_Cons [OF assms] by simp
  next
    case (Cons x a')
    let ?s = "a @ c # m"
    have ne: "?s \<noteq> []" by simp
    obtain r w where d: "DecodeRuneInString ?s = (r, w)" by (cases "DecodeRuneInString ?s")
    from DecodeRuneInString_width [OF ne] d have w1: "1 \<le> w" by auto
    have wa: "w \<le> length a"
    proof (cases "byte x < 0x80")
      case True
      with DecodeRuneInString_ascii [OF ne] d Cons show ?thesis by simp
    next
      case False
      then have "0x80 \<le> byte (?s ! 0)" using Cons by simp
      from DecodeRuneInString_multi [OF ne this d]
      have bs: "\<forall>i<w. 0x80 \<le> byte (?s ! i)" by simp
      show ?thesis
      proof (rule ccontr)
        assume "\<not> w \<le> length a"
        then have "length a < w" by simp
        with bs have "0x80 \<le> byte (?s ! length a)" by blast
        then show False using assms by (simp add: nth_append)
      qed
    qed
    have shorter: "length (drop w a) < length a" using w1 Cons by simp
    from "1" [rule_format, OF shorter] obtain tb where
      tb: "runes (drop w a @ c # m) = tb @ (byte c, [c]) # runes m"
          "concat (map snd tb) = drop w a" "list_all rune_ok tb"
      by blast
    have tk: "take w ?s = take w a" and dr: "drop w ?s = drop w a @ c # m"
      using wa by simp_all
    have "runes ?s = (r, take w a) # runes (drop w a @ c # m)"
      using d tk dr by (subst runes.simps) simp
    moreover have "rune_ok (r, take w a)"
      using rune_ok_decode [OF ne d] tk by simp
    ultimately show ?thesis
      using tb by (intro exI [of _ "(r, take w a) # tb"]) simp
  qed
qed

lemma runes_ascii_only:
  "list_all (\<lambda>c. byte c < 0x80) s \<Longrightarrow> runes s = map (\<lambda>c. (byte c, [c])) s"
  by (induction s) (simp_all add: runes_Nil runes_ascii_Cons)

section \<open>Facts about matching\<close>

subsection \<open>A pattern of one single-rune piece\<close>

lemma exec_Once_single:
  "exec [(Once a, g)] ts =
     (case ts of [] \<Rightarrow> None
      | t # ts' \<Rightarrow> if atom_matches a (fst t) then Some ([snd t], ts') else None)"
  by (cases ts) (auto split: prod.splits)

lemma search_Once_None:
  "(search [(Once a, g)] ts = None) = (\<forall>t \<in> set ts. \<not> atom_matches a (fst t))"
  by (induction ts) (auto simp: exec_Once_single split: option.splits)

lemma search_Once_Some:
  "search [(Once a, g)] ts = Some (skipped, ms, rest) \<Longrightarrow>
     \<exists>pre t. ts = pre @ t # rest \<and> (\<forall>u \<in> set pre. \<not> atom_matches a (fst u))
        \<and> atom_matches a (fst t) \<and> skipped = concat (map snd pre) \<and> ms = [snd t]"
proof (induction ts arbitrary: skipped)
  case Nil
  then show ?case by (simp add: exec_Once_single)
next
  case (Cons t ts)
  show ?case
  proof (cases "atom_matches a (fst t)")
    case True
    with Cons.prems have "skipped = []" "ms = [snd t]" "rest = ts"
      by (auto simp: exec_Once_single)
    with True show ?thesis by (intro exI [of _ "[]"] exI [of _ t]) simp
  next
    case False
    with Cons.prems obtain sk where
      s: "search [(Once a, g)] ts = Some (sk, ms, rest)" and sk: "skipped = snd t @ sk"
      by (auto simp: exec_Once_single split: option.splits)
    from Cons.IH [OF s] obtain pre u where
      "ts = pre @ u # rest" "\<forall>v \<in> set pre. \<not> atom_matches a (fst v)"
      "atom_matches a (fst u)" "sk = concat (map snd pre)" "ms = [snd u]"
      by blast
    with False sk show ?thesis
      by (intro exI [of _ "t # pre"] exI [of _ u]) simp
  qed
qed

text \<open>With such a pattern \<open>replaceAll\<close> writes the replacement for every rune the piece
  matches and copies the bytes of every other rune.\<close>

lemma replaceAll_Once:
  "replaceAll [(Once a, g)] repl ts pending start =
     pending @ concat (map (\<lambda>t. if atom_matches a (fst t) then repl else snd t) ts)"
proof (induction ts arbitrary: pending start rule: length_induct)
  case (1 ts)
  show ?case
  proof (cases "search [(Once a, g)] ts")
    case None
    then have "\<forall>t \<in> set ts. \<not> atom_matches a (fst t)" by (simp add: search_Once_None)
    then have eq: "map (\<lambda>t. if atom_matches a (fst t) then repl else snd t) ts = map snd ts"
      by (intro map_cong) auto
    show ?thesis by (subst replaceAll.simps) (simp only: None eq option.case)
  next
    case (Some found)
    obtain skipped ms rest where f: "found = (skipped, ms, rest)" by (cases found)
    from search_Once_Some [OF Some [unfolded f]] obtain pre t where
      ts: "ts = pre @ t # rest" and pre: "\<forall>u \<in> set pre. \<not> atom_matches a (fst u)"
      and t: "atom_matches a (fst t)" and sk: "skipped = concat (map snd pre)"
      by blast
    have shorter: "length rest < length ts" using ts by simp
    have p: "map (\<lambda>t. if atom_matches a (fst t) then repl else snd t) pre = map snd pre"
      using pre by (intro map_cong) auto
    have "replaceAll [(Once a, g)] repl ts pending start =
            pending @ skipped @ repl @ replaceAll [(Once a, g)] repl rest [] False"
      using Some f shorter by (subst replaceAll.simps) simp
    also have "\<dots> = pending @ skipped @ repl
                      @ concat (map (\<lambda>t. if atom_matches a (fst t) then repl else snd t) rest)"
      using "1" [rule_format, OF shorter] by simp
    also have "\<dots> = pending @ concat (map (\<lambda>t. if atom_matches a (fst t) then repl else snd t) ts)"
      by (simp add: ts t sk p)
    finally show ?thesis .
  qed
qed

section \<open>Package files: the extractor\<close>

record ImageInfo =
  URL :: string
  AltText :: string
  IsLinearURL :: bool

text \<open>The pattern \<^verbatim>\<open>!\[([^\]]*)\]\(([^)]+)\)\<close>.\<close>

definition markdownRegex :: regexp where
  "markdownRegex =
     [(Once (Char CHR ''!''), False),
      (Once (Char CHR ''[''), False),
      (Star (NotIn [(CHR '']'', CHR '']'')]), True),
      (Once (Char CHR '']''), False),
      (Once (Char CHR ''(''), False),
      (Plus (NotIn [(CHR '')'', CHR '')'')]), True),
      (Once (Char CHR '')''), False)]"

text \<open>The pattern \<^verbatim>\<open><img[^>]+src="([^"]+)"\<close>; \<open>CHR 0x22\<close> is the double quote.\<close>

definition htmlRegex :: regexp where
  "htmlRegex =
     [(Once (Char CHR ''<''), False),
      (Once (Char CHR ''i''), False),
      (Once (Char CHR ''m''), False),
      (Once (Char CHR ''g''), False),
      (Plus (NotIn [(CHR ''>'', CHR ''>'')]), False),
      (Once (Char CHR ''s''), False),
      (Once (Char CHR ''r''), False),
      (Once (Char CHR ''c''), False),
      (Once (Char CHR ''=''), False),
      (Once (Char CHR 0x22), False),
      (Plus (NotIn [(CHR 0x22, CHR 0x22)]), True),
      (Once (Char CHR 0x22), False)]"

text \<open>
  \<open>ExtractImagesFromMarkdown\<close>: two loops, each appending to \<open>images\<close> for every match
  that has enough submatches.
\<close>

definition ExtractImagesFromMarkdown :: "string \<Rightarrow> ImageInfo list" where
  "ExtractImagesFromMarkdown markdown =
     (let images0 = [];
          matches = FindAllStringSubmatch markdownRegex markdown;
          images1 = fold (\<lambda>match images.
                       if length match \<ge> 3
                       then images @ [\<lparr>URL = match ! 2, AltText = match ! 1,
                                        IsLinearURL = Contains (match ! 2) ''linear.app''\<rparr>]
                       else images) matches images0;
          matches' = FindAllStringSubmatch htmlRegex markdown;
          images2 = fold (\<lambda>match images.
                       if length match \<ge> 2
                       then images @ [\<lparr>URL = match ! 1, AltText = [],
                                        IsLinearURL = Contains (match ! 1) ''linear.app''\<rparr>]
                       else images) matches' images1
      in images2)"

section \<open>Package files: file metadata\<close>

text \<open>\<open>filepath.Ext\<close>: the suffix from the last dot of the last path element on, or the
  empty string. The loop runs from the end of the path; \<open>rest\<close> is the part of the path
  not yet looked at, reversed, and \<open>suffix\<close> the part already passed.\<close>

fun Ext_loop :: "(char \<Rightarrow> bool) \<Rightarrow> string \<Rightarrow> string \<Rightarrow> string" where
  "Ext_loop sep [] suffix = []"
| "Ext_loop sep (c # rest) suffix =
     (if sep c then []
      else if c = CHR ''.'' then c # suffix
      else Ext_loop sep rest (c # suffix))"

definition Ext :: "'fs sys \<Rightarrow> string \<Rightarrow> string" where
  "Ext env path = Ext_loop (os_IsPathSeparator env) (rev path) []"

text \<open>\<open>GetFileInfo\<close> returns the triple (size, contentType, err).\<close>

definition GetFileInfo :: "'fs sys \<Rightarrow> string \<Rightarrow> 'fs \<Rightarrow> int \<times> string \<times> error option" where
  "GetFileInfo env filePath d =
     (case os_Stat env filePath d of
        Inl err \<Rightarrow> (0, [], Some (Errorf ''failed to stat file: '' err))
      | Inr info \<Rightarrow>
          let size = fi_Size info;
              ext = ToLower env (Ext env filePath);
              contentType =
                (if ext = ''.jpg'' \<or> ext = ''.jpeg'' then ''image/jpeg''
                 else if ext = ''.png'' then ''image/png''
                 else if ext = ''.gif'' then ''image/gif''
                 else if ext = ''.webp'' then ''image/webp''
                 else if ext = ''.svg'' then ''image/svg+xml''
                 else if ext = ''.bmp'' then ''image/bmp''
                 else if ext = ''.mp4'' then ''video/mp4''
                 else if ext = ''.webm'' then ''video/webm''
                 else if ext = ''.mov'' then ''video/quicktime''
                 else if ext = ''.pdf'' then ''application/pdf''
                 else ''application/octet-stream'')
          in (size, contentType, None))"

definition ReadFile :: "'fs sys \<Rightarrow> string \<Rightarrow> 'fs \<Rightarrow> string \<times> error option" where
  "ReadFile env filePath d =
     (case os_ReadFile env filePath d of
        Inl err \<Rightarrow> ([], Some (Errorf (''failed to read file '' @ filePath @ '': '') err))
      | Inr bytes \<Rightarrow> (bytes, None))"

section \<open>Package files: the document mutator\<close>

text \<open>The pattern \<^verbatim>\<open>[^a-zA-Z0-9._-]\<close>.\<close>

definition sanitizeRegex :: regexp where
  "sanitizeRegex =
     [(Once (NotIn [(CHR ''a'', CHR ''z''), (CHR ''A'', CHR ''Z''), (CHR ''0'', CHR ''9''),
                    (CHR ''.'', CHR ''.''), (CHR ''_'', CHR ''_''), (CHR ''-'', CHR ''-'')]),
       False)]"

definition SanitizeFilename :: "string \<Rightarrow> string" where
  "SanitizeFilename name =
     (let safe = ReplaceAllString sanitizeRegex name ''_''
      in if length safe > 200 then take 200 safe else safe)"

text \<open>\<open>fmt.Sprintf("![%s](%s)", altText, imageURL)\<close> splices the two strings in;
  \<open>CHR 0x0A\<close> is the newline.\<close>

definition InjectImageIntoMarkdown :: "string \<Rightarrow> string \<Rightarrow> string \<Rightarrow> string" where
  "InjectImageIntoMarkdown markdown imageURL altText =
     (let altText' = (if altText = [] then ''image'' else altText);
          imageMarkdown = ''!['' @ altText' @ '']('' @ imageURL @ '')''
      in if TrimSpace markdown = [] then imageMarkdown
         else markdown @ [CHR 0x0A, CHR 0x0A] @ imageMarkdown)"

section \<open>The content-type table as the specification states it\<close>

text \<open>
  The table of section 4.4 of the specification, keyed by the extension with its dot
  (the form \<open>filepath.Ext\<close> returns); \<open>content_type_of\<close> looks an extension up and falls
  back to the generic binary type.
\<close>

definition content_types :: "(string \<times> string) list" where
  "content_types =
     [(''.jpg'', ''image/jpeg''), (''.jpeg'', ''image/jpeg''), (''.png'', ''image/png''),
      (''.gif'', ''image/gif''), (''.webp'', ''image/webp''), (''.svg'', ''image/svg+xml''),
      (''.bmp'', ''image/bmp''), (''.mp4'', ''video/mp4''), (''.webm'', ''video/webm''),
      (''.mov'', ''video/quicktime''), (''.pdf'', ''application/pdf'')]"

definition content_type_of :: "string \<Rightarrow> string" where
  "content_type_of ext =
     (case map_of content_types ext of
        Some t \<Rightarrow> t
      | None \<Rightarrow> ''application/octet-stream'')"

text \<open>The set \<open>[A-Za-z0-9._-]\<close>.\<close>

definition permitted :: "char \<Rightarrow> bool" where
  "permitted c = (is_upper c \<or> is_lower c \<or> is_digit c
                  \<or> c = CHR ''.'' \<or> c = CHR ''_'' \<or> c = CHR ''-'')"

text \<open>What the sanitizer does with one rune.\<close>

definition sanitize_rune :: "nat \<times> string \<Rightarrow> string" where
  "sanitize_rune t =
     (if atom_matches (NotIn [(CHR ''a'', CHR ''z''), (CHR ''A'', CHR ''Z''),
                              (CHR ''0'', CHR ''9''), (CHR ''.'', CHR ''.''),
                              (CHR ''_'', CHR ''_''), (CHR ''-'', CHR ''-'')]) (fst t)
      then ''_'' else snd t)"

text \<open>The reference each of the two loops of \<open>ExtractImagesFromMarkdown\<close> appends for a
  match.\<close>

definition markdown_ref :: "string list \<Rightarrow> ImageInfo" where
  "markdown_ref match = \<lparr>URL = match ! 2, AltText = match ! 1,
                         IsLinearURL = Contains (match ! 2) ''linear.app''\<rparr>"

definition html_ref :: "string list \<Rightarrow> ImageInfo" where
  "html_ref match = \<lparr>URL = match ! 1, AltText = [],
                     IsLinearURL = Contains (match ! 1) ''linear.app''\<rparr>"

section \<open>Facts about the extractor\<close>

lemma Contains_iff: "Contains s substr = (\<exists>pre post. s = pre @ substr @ post)"
proof (induction s)
  case Nil
  then show ?case by auto
next
  case (Cons c cs)
  have "(take (length substr) (c # cs) = substr) = (\<exists>post. c # cs = substr @ post)"
    by (metis append_eq_conv_conj)
  moreover have "(\<exists>pre post. c # cs = pre @ substr @ post)
      = ((\<exists>post. c # cs = substr @ post) \<or> (\<exists>pre post. cs = pre @ substr @ post))"
  proof
    assume "\<exists>pre post. c # cs = pre @ substr @ post"
    then obtain pre post where e: "c # cs = pre @ substr @ post" by blast
    show "(\<exists>post. c # cs = substr @ post) \<or> (\<exists>pre post. cs = pre @ substr @ post)"
    proof (cases pre)
      case Nil
      with e show ?thesis by auto
    next
      case (Cons p pre')
      with e have "cs = pre' @ substr @ post" by simp
      then show ?thesis by blast
    qed
  next
    assume "(\<exists>post. c # cs = substr @ post) \<or> (\<exists>pre post. cs = pre @ substr @ post)"
    then show "\<exists>pre post. c # cs = pre @ substr @ post"
    proof
      assume "\<exists>post. c # cs = substr @ post"
      then obtain post where "c # cs = [] @ substr @ post" by auto
      then show ?thesis by blast
    next
      assume "\<exists>pre post. cs = pre @ substr @ post"
      then obtain pre post where "c # cs = (c # pre) @ substr @ post" by auto
      then show ?thesis by blast
    qed
  qed
  ultimately show ?case using Cons.IH by simp
qed

lemma fold_append_if:
  "fold (\<lambda>m acc. if P m then acc @ [f m] else acc) ms acc0 = acc0 @ map f (filter P ms)"
  by (induction ms arbitrary: acc0) simp_all

lemma ExtractImagesFromMarkdown_maps:
  "ExtractImagesFromMarkdown markdown =
     map markdown_ref (filter (\<lambda>match. length match \<ge> 3)
                         (FindAllStringSubmatch markdownRegex markdown))
     @ map html_ref (filter (\<lambda>match. length match \<ge> 2)
                       (FindAllStringSubmatch htmlRegex markdown))"
  unfolding ExtractImagesFromMarkdown_def Let_def fold_append_if markdown_ref_def html_ref_def
  by simp

lemma ExtractImagesFromMarkdown_Contains:
  assumes "ref \<in> set (ExtractImagesFromMarkdown markdown)"
  shows "IsLinearURL ref = Contains (URL ref) ''linear.app''"
  using assms unfolding ExtractImagesFromMarkdown_maps
  by (auto simp: markdown_ref_def html_ref_def simp del: Contains.simps)

section \<open>Download: the status check comes before the file system\<close>

text \<open>
  C1. Whenever \<open>client.Do\<close> hands back a response whose status code is not 200,
  \<open>DownloadImage\<close> returns the error "download failed with status: " followed by the
  response's status text, and the disk is the one it started with: no directory was
  created and no file was created or overwritten.
\<close>

theorem DownloadImage_status_check:
  assumes "NewRequestWithContext env ctx ''GET'' url None = Inr req0"
    and "req = (if authHeader \<noteq> []
                then req0\<lparr>req_Header := Header_Set (req_Header req0) ''Authorization'' authHeader\<rparr>
                else req0)"
    and "client_Do env req = Inr resp"
    and "resp_StatusCode resp \<noteq> 200"
  shows "DownloadImage env ctx url outputPath authHeader w =
           (Some (New (''download failed with status: '' @ resp_Status resp)),
            w\<lparr>requests := requests w @ [req]\<rparr>)
         \<and> disk (snd (DownloadImage env ctx url outputPath authHeader w)) = disk w"
  using assms by (simp add: DownloadImage_def StatusOK_def Let_def)

theorem DownloadImage_status_check_witness:
  "DownloadImage (demo_env (demo_response 404 ''404 Not Found'' ''gone'')) (Ctx 0)
      ''https://x/a.png'' ''/tmp/out/a.png'' []
      \<lparr>requests = [], disk = [(''/tmp/out/a.png'', ''old'')]\<rparr>
    = (Some (New ''download failed with status: 404 Not Found''),
       \<lparr>requests = [\<lparr>req_ctx = Ctx 0, req_Method = ''GET'', req_URL = ''https://x/a.png'',
                      req_Header = Map.empty, req_Body = None\<rparr>],
        disk = [(''/tmp/out/a.png'', ''old'')]\<rparr>)
   \<and> disk (snd (DownloadImage (demo_env (demo_response 404 ''404 Not Found'' ''gone'')) (Ctx 0)
      ''https://x/a.png'' ''/tmp/out/a.png'' []
      \<lparr>requests = [], disk = [(''/tmp/out/a.png'', ''old'')]\<rparr>)) = [(''/tmp/out/a.png'', ''old'')]"
proof -
  let ?resp = "demo_response 404 ''404 Not Found'' ''gone''"
  let ?r0 = "\<lparr>req_ctx = Ctx 0, req_Method = ''GET'', req_URL = ''https://x/a.png'',
               req_Header = Map.empty, req_Body = None\<rparr>"
  have a: "NewRequestWithContext (demo_env ?resp) (Ctx 0) ''GET'' ''https://x/a.png'' None = Inr ?r0"
    by (simp add: NewRequestWithContext_def demo_env_def)
  have b: "?r0 = (if ([]::string) \<noteq> []
                then ?r0\<lparr>req_Header := Header_Set (req_Header ?r0) ''Authorization'' []\<rparr>
                else ?r0)"
    by simp
  have c: "client_Do (demo_env ?resp) ?r0 = Inr ?resp"
    by (simp add: demo_env_def)
  have d: "resp_StatusCode ?resp \<noteq> 200"
    by (simp add: demo_response_def)
  from DownloadImage_status_check [OF a b c d,
      of "''/tmp/out/a.png''" "\<lparr>requests = [], disk = [(''/tmp/out/a.png'', ''old'')]\<rparr>"]
  show ?thesis by (simp add: demo_response_def)
qed

section \<open>Upload: accepted status codes\<close>

text \<open>
  C2. Whenever \<open>client.Do\<close> hands back a response, \<open>UploadToPresignedURL\<close> returns no
  error exactly when the status code is 200 or 204; on every other status code it
  returns the error "upload failed with status ", the response's status text, ": " and
  the bytes read from the response body.
\<close>

theorem UploadToPresignedURL_status:
  assumes "NewRequestWithContext env ctx ''PUT'' (UploadURL info) (Some fileContent) = Inr req0"
    and "client_Do env (req0\<lparr>req_Header := upload_headers info (req_Header req0)\<rparr>) = Inr resp"
  shows "(fst (UploadToPresignedURL env ctx info fileContent w) = None)
           = (resp_StatusCode resp = 200 \<or> resp_StatusCode resp = 204)
         \<and> fst (UploadToPresignedURL env ctx info fileContent w) =
             (if resp_StatusCode resp = 200 \<or> resp_StatusCode resp = 204 then None
              else Some (New (''upload failed with status '' @ resp_Status resp @ '': ''
                              @ fst (io_ReadAll (resp_Body resp)))))"
  using assms
  by (simp add: UploadToPresignedURL_def StatusOK_def StatusNoContent_def Let_def
      split: prod.splits)

theorem UploadToPresignedURL_status_witness:
  "fst (UploadToPresignedURL
          (demo_env (demo_response 403 ''403 Forbidden'' ''<Error>AccessDenied</Error>''))
          (Ctx 0) (demo_info [] ''https://cdn.example/a.png'' 3) ''abc''
          \<lparr>requests = [], disk = []\<rparr>)
     = Some (New ''upload failed with status 403 Forbidden: <Error>AccessDenied</Error>'')
   \<and> fst (UploadToPresignedURL (demo_env (demo_response 204 ''204 No Content'' []))
          (Ctx 0) (demo_info [] ''https://cdn.example/a.png'' 3) ''abc''
          \<lparr>requests = [], disk = []\<rparr>) = None"
proof -
  let ?i = "demo_info [] ''https://cdn.example/a.png'' 3"
  let ?r0 = "\<lparr>req_ctx = Ctx 0, req_Method = ''PUT'', req_URL = UploadURL ?i,
               req_Header = Map.empty, req_Body = Some ''abc''\<rparr>"
  let ?bad = "demo_response 403 ''403 Forbidden'' ''<Error>AccessDenied</Error>''"
  let ?good = "demo_response 204 ''204 No Content'' []"
  have a: "NewRequestWithContext (demo_env ?bad) (Ctx 0) ''PUT'' (UploadURL ?i) (Some ''abc'') = Inr ?r0"
    by (simp add: NewRequestWithContext_def demo_env_def)
  have b: "client_Do (demo_env ?bad) (?r0\<lparr>req_Header := upload_headers ?i (req_Header ?r0)\<rparr>) = Inr ?bad"
    by (simp add: demo_env_def)
  have c: "NewRequestWithContext (demo_env ?good) (Ctx 0) ''PUT'' (UploadURL ?i) (Some ''abc'') = Inr ?r0"
    by (simp add: NewRequestWithContext_def demo_env_def)
  have d: "client_Do (demo_env ?good) (?r0\<lparr>req_Header := upload_headers ?i (req_Header ?r0)\<rparr>) = Inr ?good"
    by (simp add: demo_env_def)
  from UploadToPresignedURL_status [OF a b, of "\<lparr>requests = [], disk = []\<rparr>"]
       UploadToPresignedURL_status [OF c d, of "\<lparr>requests = [], disk = []\<rparr>"]
  show ?thesis by (simp add: demo_response_def)
qed

section \<open>Upload: fields that are never read\<close>



section \<open>Upload: the headers of the request\<close>

text \<open>
  C3, as stated, says that for every key of \<open>Headers\<close> the request carries the value
  \<open>Headers\<close> gives to that key. \<open>Header.Set\<close> stores under the canonical form of the key,
  so two keys that differ only in letter case are one header, and only the entry
  visited last survives. For a map holding both "content-type" and "Content-Type" the
  request cannot carry both values, in whichever order the map is visited.
\<close>

theorem UploadToPresignedURL_headers_counterexample:
  "(''content-type'', ''image/png'')
      \<in> set (Headers (demo_info [(''content-type'', ''image/png''), (''Content-Type'', ''text/plain'')] [] 3))
   \<and> distinct (map fst (Headers (demo_info [(''content-type'', ''image/png''), (''Content-Type'', ''text/plain'')] [] 3)))
   \<and> map (\<lambda>req. Header_Get (req_Header req) ''content-type'')
         (requests (snd (UploadToPresignedURL (demo_env (demo_response 200 ''200 OK'' [])) (Ctx 0)
            (demo_info [(''content-type'', ''image/png''), (''Content-Type'', ''text/plain'')] [] 3)
            ''abc'' \<lparr>requests = [], disk = []\<rparr>)))
       = [''text/plain'']
   \<and> (''Content-Type'', ''text/plain'')
      \<in> set (Headers (demo_info [(''Content-Type'', ''text/plain''), (''content-type'', ''image/png'')] [] 3))
   \<and> map (\<lambda>req. Header_Get (req_Header req) ''Content-Type'')
         (requests (snd (UploadToPresignedURL (demo_env (demo_response 200 ''200 OK'' [])) (Ctx 0)
            (demo_info [(''Content-Type'', ''text/plain''), (''content-type'', ''image/png'')] [] 3)
            ''abc'' \<lparr>requests = [], disk = []\<rparr>)))
       = [''image/png'']"
proof -
  have keys: "CanonicalMIMEHeaderKey ''content-type'' = ''Content-Type''"
    "CanonicalMIMEHeaderKey ''Content-Type'' = ''Content-Type''"
    "CanonicalMIMEHeaderKey ''Cache-Control'' = ''Cache-Control''"
    by code_simp+
  show ?thesis
    by (simp add: UploadToPresignedURL_def NewRequestWithContext_def demo_env_def demo_info_def
        demo_response_def StatusOK_def upload_headers_def Header_Get_def Header_Set_def
        keys Let_def)
qed

text \<open>
  C3, amended. When the request can be built, \<open>UploadToPresignedURL\<close> hands exactly one
  request to \<open>client.Do\<close>: a PUT to \<open>UploadURL\<close> with the content as body. For every entry
  (key, v) of \<open>Headers\<close> the request carries v under that key, provided every entry of
  \<open>Headers\<close> whose key has the same canonical form carries the same value v (so in
  particular when no other key has that canonical form). Content-Type is
  \<open>ContentType\<close> and Cache-Control is "public, max-age=31536000" when no key of
  \<open>Headers\<close> has that canonical form.
\<close>

theorem UploadToPresignedURL_headers:
  assumes "ctx \<noteq> nil_Context" and "url_Parse env (UploadURL info) = None"
  shows "\<exists>req. requests (snd (UploadToPresignedURL env ctx info fileContent w)) = requests w @ [req]
          \<and> req_Method req = ''PUT'' \<and> req_URL req = UploadURL info
          \<and> req_Body req = Some fileContent
          \<and> (\<forall>(key, v) \<in> set (Headers info).
                (\<forall>(key', v') \<in> set (Headers info).
                    CanonicalMIMEHeaderKey key' = CanonicalMIMEHeaderKey key \<longrightarrow> v' = v)
                \<longrightarrow> Header_Get (req_Header req) key = v)
          \<and> (''Content-Type'' \<notin> (\<lambda>(key, v). CanonicalMIMEHeaderKey key) ` set (Headers info)
                \<longrightarrow> Header_Get (req_Header req) ''Content-Type'' = ContentType info)
          \<and> (''Cache-Control'' \<notin> (\<lambda>(key, v). CanonicalMIMEHeaderKey key) ` set (Headers info)
                \<longrightarrow> Header_Get (req_Header req) ''Cache-Control'' = ''public, max-age=31536000'')"
proof -
  let ?req = "\<lparr>req_ctx = ctx, req_Method = ''PUT'', req_URL = UploadURL info,
                req_Header = upload_headers info Map.empty, req_Body = Some fileContent\<rparr>"
  have "requests (snd (UploadToPresignedURL env ctx info fileContent w)) = requests w @ [?req]"
    using assms
    by (simp add: UploadToPresignedURL_def NewRequestWithContext_def Let_def
        split: sum.splits prod.splits)
  moreover have "\<forall>(key, v) \<in> set (Headers info).
                (\<forall>(key', v') \<in> set (Headers info).
                    CanonicalMIMEHeaderKey key' = CanonicalMIMEHeaderKey key \<longrightarrow> v' = v)
                \<longrightarrow> Header_Get (req_Header ?req) key = v"
    using Header_Get_upload_headers_entry by auto
  ultimately show ?thesis
    using Header_Get_upload_headers_ContentType Header_Get_upload_headers_CacheControl
    by (intro exI [of _ ?req]) simp
qed

theorem UploadToPresignedURL_headers_witness:
  "\<exists>req. requests (snd (UploadToPresignedURL (demo_env (demo_response 200 ''200 OK'' [])) (Ctx 0)
             (demo_info [(''x-amz-acl'', ''public-read''), (''content-type'', ''image/webp'')] [] 3)
             ''abc'' \<lparr>requests = [], disk = []\<rparr>)) = [req]
     \<and> req_Method req = ''PUT'' \<and> req_URL req = ''https://bucket.example/put?sig=1''
     \<and> req_Body req = Some ''abc''
     \<and> Header_Get (req_Header req) ''x-amz-acl'' = ''public-read''
     \<and> Header_Get (req_Header req) ''content-type'' = ''image/webp''
     \<and> Header_Get (req_Header req) ''Cache-Control'' = ''public, max-age=31536000''"
proof -
  let ?hs = "[(''x-amz-acl'', ''public-read''), (''content-type'', ''image/webp'')]"
  let ?env = "demo_env (demo_response 200 ''200 OK'' [])"
  have keys: "CanonicalMIMEHeaderKey ''x-amz-acl'' = ''X-Amz-Acl''"
    "CanonicalMIMEHeaderKey ''content-type'' = ''Content-Type''"
    by code_simp+
  have a: "Ctx 0 \<noteq> nil_Context" by simp
  have b: "url_Parse ?env (UploadURL (demo_info ?hs [] 3)) = None"
    by (simp add: demo_env_def)
  from UploadToPresignedURL_headers [OF a b, of "''abc''" "\<lparr>requests = [], disk = []\<rparr>"]
  show ?thesis
    by (simp add: demo_info_def keys)
qed

section \<open>Metadata: size and content type\<close>

lemma toLower_byte_id: "\<not> is_upper c \<Longrightarrow> toLower_byte c = c"
  by (simp add: toLower_byte_def)

lemma ToLower_ascii:
  assumes "\<forall>c \<in> set s. byte c < 0x80"
  shows "ToLower env s = map toLower_byte s"
proof -
  have tw: "takeWhile (\<lambda>c. byte c < RuneSelf) s = s"
    using assms by (simp add: RuneSelf_def takeWhile_eq_all_conv)
  show ?thesis
  proof (cases "list_ex is_upper s")
    case True
    then show ?thesis by (simp add: ToLower_def tw Let_def)
  next
    case False
    then have "map toLower_byte s = s"
      by (intro map_idI) (auto simp: list_ex_iff toLower_byte_id)
    with False show ?thesis by (simp add: ToLower_def tw Let_def)
  qed
qed

lemma Ext_loop_suffix:
  assumes "\<not> sep CHR ''.''" and "\<forall>c \<in> set e. c \<noteq> CHR ''.'' \<and> \<not> sep c"
  shows "Ext_loop sep (rev e @ CHR ''.'' # p) suffix = CHR ''.'' # e @ suffix"
  using assms(2)
proof (induction e arbitrary: suffix rule: rev_induct)
  case Nil
  then show ?case using assms(1) by simp
next
  case (snoc c e)
  then show ?case by simp
qed

lemma Ext_dot:
  assumes "\<not> os_IsPathSeparator env CHR ''.''"
    and "\<forall>c \<in> set e. c \<noteq> CHR ''.'' \<and> \<not> os_IsPathSeparator env c"
  shows "Ext env (p @ CHR ''.'' # e) = CHR ''.'' # e"
  using Ext_loop_suffix [OF assms, of "rev p" "[]"] by (simp add: Ext_def)

lemma GetFileInfo_content_type:
  assumes "os_Stat env filePath d = Inr info"
  shows "GetFileInfo env filePath d =
           (fi_Size info, content_type_of (ToLower env (Ext env filePath)), None)"
  using assms
  by (simp add: GetFileInfo_def Let_def content_type_of_def content_types_def)

text \<open>
  C8. When \<open>os.Stat\<close> succeeds, \<open>GetFileInfo\<close> returns the size \<open>os.Stat\<close> reported, no
  error, and the content type the table gives for the lower-cased extension of the
  path, so the generic binary type for an extension outside the table and for a path
  with no extension. Nothing else of the path and nothing of the file's bytes enters
  the content type. For an extension of ASCII bytes, lower-casing maps \<open>A-Z\<close> to \<open>a-z\<close>
  and leaves every other byte alone. The extension of a path that ends in a dot
  followed by bytes that are neither dots nor path separators is that dot and those
  bytes.
\<close>

theorem GetFileInfo_spec:
  assumes "os_Stat env filePath d = Inr info"
  shows "GetFileInfo env filePath d =
           (fi_Size info, content_type_of (ToLower env (Ext env filePath)), None)
       \<and> ((\<forall>c \<in> set (Ext env filePath). byte c < 0x80) \<longrightarrow>
            ToLower env (Ext env filePath) = map toLower_byte (Ext env filePath))
       \<and> (Ext env filePath = [] \<longrightarrow>
            fst (snd (GetFileInfo env filePath d)) = ''application/octet-stream'')
       \<and> (map_of content_types (ToLower env (Ext env filePath)) = None \<longrightarrow>
            fst (snd (GetFileInfo env filePath d)) = ''application/octet-stream'')
       \<and> (\<forall>p e. filePath = p @ CHR ''.'' # e \<and> \<not> os_IsPathSeparator env CHR ''.''
              \<and> (\<forall>c \<in> set e. c \<noteq> CHR ''.'' \<and> \<not> os_IsPathSeparator env c)
            \<longrightarrow> Ext env filePath = CHR ''.'' # e)"
proof (intro conjI allI impI)
  show main: "GetFileInfo env filePath d =
           (fi_Size info, content_type_of (ToLower env (Ext env filePath)), None)"
    by (rule GetFileInfo_content_type [OF assms])
  show "ToLower env (Ext env filePath) = map toLower_byte (Ext env filePath)"
    if "\<forall>c \<in> set (Ext env filePath). byte c < 0x80"
    using that by (rule ToLower_ascii)
  show "fst (snd (GetFileInfo env filePath d)) = ''application/octet-stream''"
    if e: "Ext env filePath = []"
  proof -
    have "ToLower env [] = []" using ToLower_ascii [of "[]" env] by simp
    then show ?thesis
      by (simp add: main e content_type_of_def content_types_def)
  qed
  show "fst (snd (GetFileInfo env filePath d)) = ''application/octet-stream''"
    if "map_of content_types (ToLower env (Ext env filePath)) = None"
    using that by (simp add: main content_type_of_def)
  show "Ext env filePath = CHR ''.'' # e"
    if "filePath = p @ CHR ''.'' # e \<and> \<not> os_IsPathSeparator env CHR ''.''
              \<and> (\<forall>c \<in> set e. c \<noteq> CHR ''.'' \<and> \<not> os_IsPathSeparator env c)"
    for p e
    using that Ext_dot [of env e p] by simp
qed

theorem GetFileInfo_spec_witness:
  "GetFileInfo (demo_env (demo_response 200 ''200 OK'' [])) ''/a/b.c/x.PnG''
      [(''/a/b.c/x.PnG'', ''abc'')] = (3, ''image/png'', None)
   \<and> GetFileInfo (demo_env (demo_response 200 ''200 OK'' [])) ''/a/b.c/notes''
      [(''/a/b.c/notes'', ''abcd'')] = (4, ''application/octet-stream'', None)"
proof -
  let ?env = "demo_env (demo_response 200 ''200 OK'' [])"
  have a: "os_Stat ?env ''/a/b.c/x.PnG'' [(''/a/b.c/x.PnG'', ''abc'')] = Inr \<lparr>fi_Size = 3\<rparr>"
    by (simp add: demo_env_def)
  have b: "os_Stat ?env ''/a/b.c/notes'' [(''/a/b.c/notes'', ''abcd'')] = Inr \<lparr>fi_Size = 4\<rparr>"
    by (simp add: demo_env_def)
  have c: "content_type_of (ToLower ?env (Ext ?env ''/a/b.c/x.PnG'')) = ''image/png''"
    by code_simp
  have d: "content_type_of (ToLower ?env (Ext ?env ''/a/b.c/notes'')) = ''application/octet-stream''"
    by code_simp
  from GetFileInfo_spec [OF a] GetFileInfo_spec [OF b] c d show ?thesis by simp
qed

section \<open>The document mutator: appending an image\<close>

text \<open>
  C6. \<open>InjectImageIntoMarkdown\<close> uses the word "image" as alt text when \<open>altText\<close> is
  empty. When \<open>strings.TrimSpace\<close> of the document is empty it returns the reference
  "![alt](imageURL)" alone; otherwise it returns the document, unchanged, followed by
  two newlines and the reference. The two examples of the specification evaluate to
  the texts it gives.
\<close>

theorem InjectImageIntoMarkdown_spec:
  "InjectImageIntoMarkdown markdown imageURL altText =
     (if TrimSpace markdown = []
      then ''!['' @ (if altText = [] then ''image'' else altText) @ '']('' @ imageURL @ '')''
      else markdown @ [CHR 0x0A, CHR 0x0A]
           @ ''!['' @ (if altText = [] then ''image'' else altText) @ '']('' @ imageURL @ '')'')
   \<and> InjectImageIntoMarkdown [] ''http://x/a.png'' [] = ''![image](http://x/a.png)''
   \<and> InjectImageIntoMarkdown ''body text'' ''http://x/a.png'' ''cat''
       = ''body text'' @ [CHR 0x0A, CHR 0x0A] @ ''![cat](http://x/a.png)''"
proof -
  have a: "TrimSpace [] = []" by code_simp
  have b: "TrimSpace ''body text'' = ''body text''" by code_simp
  show ?thesis
    by (simp add: InjectImageIntoMarkdown_def Let_def a b)
qed

theorem InjectImageIntoMarkdown_spec_witness:
  "InjectImageIntoMarkdown [CHR '' '', CHR 0x09, CHR 0x0A] ''https://uploads.linear.app/a.png'' []
     = ''![image](https://uploads.linear.app/a.png)''
   \<and> InjectImageIntoMarkdown ''# Title'' ''u'' ''shot''
     = ''# Title'' @ [CHR 0x0A, CHR 0x0A] @ ''![shot](u)''"
proof -
  have a: "TrimSpace [CHR '' '', CHR 0x09, CHR 0x0A] = []" by code_simp
  have b: "TrimSpace ''# Title'' = ''# Title''" by code_simp
  from InjectImageIntoMarkdown_spec
         [of "[CHR '' '', CHR 0x09, CHR 0x0A]" "''https://uploads.linear.app/a.png''" "[]"]
       InjectImageIntoMarkdown_spec [of "''# Title''" "''u''" "''shot''"]
  show ?thesis by (simp add: a b)
qed

section \<open>The file-name sanitizer\<close>

lemma char_eq_byte: "(c = d) = (byte c = byte d)"
  using byte_inj by auto

lemma permitted_byte:
  "permitted c = ((97 \<le> byte c \<and> byte c \<le> 122) \<or> (65 \<le> byte c \<and> byte c \<le> 90)
      \<or> (48 \<le> byte c \<and> byte c \<le> 57) \<or> byte c = 46 \<or> byte c = 95 \<or> byte c = 45)"
proof -
  have "byte CHR ''a'' = 97" "byte CHR ''z'' = 122" "byte CHR ''A'' = 65" "byte CHR ''Z'' = 90"
    "byte CHR ''0'' = 48" "byte CHR ''9'' = 57" "byte CHR ''.'' = 46" "byte CHR ''_'' = 95"
    "byte CHR ''-'' = 45"
    by (simp_all add: byte_def)
  then show ?thesis
    unfolding permitted_def is_upper_def is_lower_def is_digit_def
      char_eq_byte [of c "CHR ''.''"] char_eq_byte [of c "CHR ''_''"] char_eq_byte [of c "CHR ''-''"]
    by auto
qed

lemma sanitize_class:
  "atom_matches (NotIn [(CHR ''a'', CHR ''z''), (CHR ''A'', CHR ''Z''),
                        (CHR ''0'', CHR ''9''), (CHR ''.'', CHR ''.''),
                        (CHR ''_'', CHR ''_''), (CHR ''-'', CHR ''-'')]) r =
   (\<not> ((97 \<le> r \<and> r \<le> 122) \<or> (65 \<le> r \<and> r \<le> 90)
      \<or> (48 \<le> r \<and> r \<le> 57) \<or> r = 46 \<or> r = 95 \<or> r = 45))"
  by (auto simp: byte_def)

lemma SanitizeFilename_runes:
  "SanitizeFilename name = take 200 (concat (map sanitize_rune (runes name)))"
proof -
  have "ReplaceAllString sanitizeRegex name ''_'' = concat (map sanitize_rune (runes name))"
    unfolding ReplaceAllString_def sanitizeRegex_def replaceAll_Once sanitize_rune_def by simp
  then show ?thesis by (simp add: SanitizeFilename_def Let_def)
qed

lemma sanitize_rune_permitted:
  assumes "rune_ok t"
  shows "list_all permitted (sanitize_rune t)"
proof (cases "(97 \<le> fst t \<and> fst t \<le> 122) \<or> (65 \<le> fst t \<and> fst t \<le> 90)
      \<or> (48 \<le> fst t \<and> fst t \<le> 57) \<or> fst t = 46 \<or> fst t = 95 \<or> fst t = 45")
  case False
  then show ?thesis
    unfolding sanitize_rune_def sanitize_class by (simp add: permitted_byte byte_def)
next
  case True
  then have lt: "fst t < 0x80" by auto
  with assms have bs: "snd t = [char_of (fst t)]" by (simp add: rune_ok_def)
  have b: "byte (char_of (fst t)) = fst t" using lt by (simp add: byte_char_of)
  have "permitted (char_of (fst t))"
    unfolding permitted_byte b using True .
  with True bs show ?thesis
    unfolding sanitize_rune_def sanitize_class by simp
qed

lemma sanitize_rune_id:
  assumes "permitted c"
  shows "sanitize_rune (byte c, [c]) = [c]"
  using assms unfolding sanitize_rune_def sanitize_class permitted_byte by simp

lemma SanitizeFilename_permitted: "list_all permitted (SanitizeFilename name)"
proof -
  have "list_all permitted (concat (map sanitize_rune ts))" if "list_all rune_ok ts" for ts
    using that by (induction ts) (simp_all add: sanitize_rune_permitted)
  from this [OF runes_ok] have "list_all permitted (concat (map sanitize_rune (runes name)))" .
  moreover have "list_all permitted (take n xs)" if "list_all permitted xs" for n xs
    using that by (auto simp: list_all_iff dest: in_set_takeD)
  ultimately show ?thesis
    unfolding SanitizeFilename_runes by blast
qed

lemma permitted_ascii: "permitted c \<Longrightarrow> byte c < 0x80"
  by (auto simp: permitted_byte)

lemma SanitizeFilename_fixpoint:
  assumes "list_all permitted s" and "length s \<le> 200"
  shows "SanitizeFilename s = s"
proof -
  have "list_all (\<lambda>c. byte c < 0x80) s"
    using assms(1) by (auto simp: list_all_iff permitted_ascii)
  then have r: "runes s = map (\<lambda>c. (byte c, [c])) s" by (rule runes_ascii_only)
  have "concat (map sanitize_rune (map (\<lambda>c. (byte c, [c])) s)) = s"
    using assms(1) by (induction s) (simp_all add: sanitize_rune_id)
  with assms(2) show ?thesis unfolding SanitizeFilename_runes r by simp
qed

lemma SanitizeFilename_length: "length (SanitizeFilename name) \<le> 200"
  unfolding SanitizeFilename_runes by simp

text \<open>
  C5. For every string \<open>s\<close>: sanitizing the result of \<open>SanitizeFilename s\<close> again gives the
  same result; the result has at most 200 characters; and every character of the result
  is one of \<open>[A-Za-z0-9._-]\<close>. \<open>SanitizeFilename\<close> is a total function of its argument:
  the loop of \<open>replaceAll\<close> it runs terminates on every input, and nothing in it can fail.
\<close>

theorem SanitizeFilename_spec:
  "SanitizeFilename (SanitizeFilename s) = SanitizeFilename s
   \<and> length (SanitizeFilename s) \<le> 200
   \<and> list_all permitted (SanitizeFilename s)"
  using SanitizeFilename_fixpoint [OF SanitizeFilename_permitted SanitizeFilename_length]
    SanitizeFilename_length SanitizeFilename_permitted by simp

section \<open>Extraction: the known-host flag\<close>

text \<open>
  C7. For every reference that \<open>ExtractImagesFromMarkdown\<close> returns, \<open>IsLinearURL\<close> is true
  exactly when the text "linear.app" occurs somewhere in the reference's URL, that is
  when the URL is some text, then "linear.app", then some text. Nothing of the URL is
  parsed.
\<close>

theorem ExtractImagesFromMarkdown_IsLinearURL:
  "\<forall>ref \<in> set (ExtractImagesFromMarkdown markdown).
     IsLinearURL ref = (\<exists>pre post. URL ref = pre @ ''linear.app'' @ post)"
proof
  fix ref
  assume "ref \<in> set (ExtractImagesFromMarkdown markdown)"
  then have "IsLinearURL ref = Contains (URL ref) ''linear.app''"
    by (rule ExtractImagesFromMarkdown_Contains)
  then show "IsLinearURL ref = (\<exists>pre post. URL ref = pre @ ''linear.app'' @ post)"
    by (simp only: Contains_iff)
qed


theorem ExtractImagesFromMarkdown_IsLinearURL_witness:
  "ExtractImagesFromMarkdown
      (''![a](https://uploads.linear.app/1.png) <img alt=x src='' @ [CHR 0x22]
       @ ''http://e.com/2.png'' @ [CHR 0x22] @ ''>'')
   = [\<lparr>URL = ''https://uploads.linear.app/1.png'', AltText = ''a'', IsLinearURL = True\<rparr>,
      \<lparr>URL = ''http://e.com/2.png'', AltText = [], IsLinearURL = False\<rparr>]
   \<and> (\<exists>pre post. ''https://uploads.linear.app/1.png'' = pre @ ''linear.app'' @ post)
   \<and> \<not> (\<exists>pre post. ''http://e.com/2.png'' = pre @ ''linear.app'' @ post)"
proof -
  let ?md = "''![a](https://uploads.linear.app/1.png) <img alt=x src='' @ [CHR 0x22]
       @ ''http://e.com/2.png'' @ [CHR 0x22] @ ''>''"
  have found: "ExtractImagesFromMarkdown ?md
   = [\<lparr>URL = ''https://uploads.linear.app/1.png'', AltText = ''a'', IsLinearURL = True\<rparr>,
      \<lparr>URL = ''http://e.com/2.png'', AltText = [], IsLinearURL = False\<rparr>]"
    by code_simp
  from ExtractImagesFromMarkdown_IsLinearURL [of ?md]
  have "(\<exists>pre post. ''https://uploads.linear.app/1.png'' = pre @ ''linear.app'' @ post)
   \<and> \<not> (\<exists>pre post. ''http://e.com/2.png'' = pre @ ''linear.app'' @ post)"
    unfolding found by simp
  with found show ?thesis by (simp only: simp_thms)
qed

end
